theory Spec2Isabelle
  imports Main "HOL-Library.Multiset"
begin

section \<open>Data model (shared/schema.ts)\<close>

text \<open>
  Timestamps are \<open>Date\<close> objects; the store only compares them through
  \<open>getTime()\<close>, so a timestamp is its number of milliseconds, an \<open>int\<close>.
  Identifiers are strings produced by \<open>randomUUID()\<close>; the clock reading and
  the fresh identifier are parameters of every operation that consults them.
  The coordinates of a position are opaque to the server.
\<close>

type_synonym position = "int \<times> int"

record Block =
  b_id :: string
  b_title :: string
  b_content :: string
  b_contentType :: string
  b_position :: "position option"
  b_tags :: "string list option"
  b_createdAt :: int
  b_updatedAt :: int
  b_authorId :: string
  b_authorName :: string

record Link =
  l_id :: string
  l_fromBlockId :: string
  l_toBlockId :: string
  l_createdAt :: int

record Comment =
  c_id :: string
  c_blockId :: string
  c_content :: string
  c_authorId :: string
  c_authorName :: string
  c_parentId :: "string option"
  c_createdAt :: int

text \<open>The insert shapes omit \<open>id\<close> and the timestamps; columns with a default are optional.\<close>

record InsertBlock =
  ib_title :: string
  ib_content :: "string option"
  ib_contentType :: "string option"
  ib_position :: "position option"
  ib_tags :: "string list option"
  ib_authorId :: string
  ib_authorName :: string

record InsertLink =
  il_fromBlockId :: string
  il_toBlockId :: string

record InsertComment =
  ic_blockId :: string
  ic_content :: string
  ic_authorId :: string
  ic_authorName :: string
  ic_parentId :: "string option"

text \<open>
  \<open>Partial<InsertBlock>\<close>: every key may be absent (\<open>None\<close>). The two nullable
  columns may be present with the value \<open>null\<close> (\<open>Some None\<close>).
\<close>

record PartialInsertBlock =
  u_title :: "string option"
  u_content :: "string option"
  u_contentType :: "string option"
  u_position :: "position option option"
  u_tags :: "string list option option"
  u_authorId :: "string option"
  u_authorName :: "string option"

record BlockWithLinks = Block +
  linkedTo :: "Block list"
  linkedFrom :: "Block list"
  comments :: "Comment list"
  linkCount :: nat
  commentCount :: nat

datatype CommentWithReplies =
  CommentWithReplies (node_comment: Comment) (replies: "CommentWithReplies list")

section \<open>The JavaScript \<open>Map\<close>, in insertion order\<close>

text \<open>
  A \<open>Map\<close> iterates in insertion order; \<open>set\<close> on a present key replaces the value
  where it stands, \<open>set\<close> on a new key appends, \<open>delete\<close> answers whether the key
  was present.
\<close>

type_synonym ('k, 'v) Map = "('k \<times> 'v) list"

definition Map_get :: "('k, 'v) Map \<Rightarrow> 'k \<Rightarrow> 'v option" where
  "Map_get m k = map_of m k"

definition Map_has :: "('k, 'v) Map \<Rightarrow> 'k \<Rightarrow> bool" where
  "Map_has m k = (Map_get m k \<noteq> None)"

fun Map_set :: "'k \<Rightarrow> 'v \<Rightarrow> ('k, 'v) Map \<Rightarrow> ('k, 'v) Map" where
  "Map_set k v [] = [(k, v)]"
| "Map_set k v ((k', v') # m) =
     (if k' = k then (k, v) # m else (k', v') # Map_set k v m)"

definition Map_delete :: "'k \<Rightarrow> ('k, 'v) Map \<Rightarrow> ('k, 'v) Map" where
  "Map_delete k m = filter (\<lambda>e. fst e \<noteq> k) m"

definition Map_values :: "('k, 'v) Map \<Rightarrow> 'v list" where
  "Map_values m = map snd m"

definition Map_entries :: "('k, 'v) Map \<Rightarrow> ('k \<times> 'v) list" where
  "Map_entries m = m"

section \<open>MemStorage (server/storage.ts)\<close>

record MemStorage =
  blocks :: "(string, Block) Map"
  links :: "(string, Link) Map"
  comments_tbl :: "(string, Comment) Map"

definition new_MemStorage :: MemStorage where
  "new_MemStorage = \<lparr>blocks = [], links = [], comments_tbl = []\<rparr>"

text \<open>\<open>a || d\<close> on an optional string: \<open>undefined\<close> and the empty string are falsy.\<close>

definition or_string :: "string option \<Rightarrow> string \<Rightarrow> string" where
  "or_string a d = (case a of None \<Rightarrow> d | Some s \<Rightarrow> if s = [] then d else s)"

text \<open>\<open>a || d\<close> on an optional object or array: only \<open>null\<close>/\<open>undefined\<close> is falsy.\<close>

definition or_object :: "'a option \<Rightarrow> 'a \<Rightarrow> 'a" where
  "or_object a d = (case a of None \<Rightarrow> d | Some v \<Rightarrow> v)"

text \<open>Truthiness of an optional string, as in \<open>if (comment.parentId)\<close>.\<close>

definition truthy :: "string option \<Rightarrow> bool" where
  "truthy a = (case a of None \<Rightarrow> False | Some s \<Rightarrow> s \<noteq> [])"

text \<open>\<open>.filter(Boolean)\<close> on the results of \<open>Map.get\<close>: the \<open>undefined\<close> ones go.\<close>

fun filter_Boolean :: "'a option list \<Rightarrow> 'a list" where
  "filter_Boolean [] = []"
| "filter_Boolean (None # xs) = filter_Boolean xs"
| "filter_Boolean (Some x # xs) = x # filter_Boolean xs"

text \<open>
  \<open>Array.prototype.sort\<close> with a comparator: a stable sort, here by insertion.
  \<open>cmp a b \<le> 0\<close> keeps \<open>a\<close> in front of \<open>b\<close>.
\<close>

fun insort_cmp :: "('a \<Rightarrow> 'a \<Rightarrow> int) \<Rightarrow> 'a \<Rightarrow> 'a list \<Rightarrow> 'a list" where
  "insort_cmp cmp x [] = [x]"
| "insort_cmp cmp x (y # ys) =
     (if cmp x y \<le> 0 then x # y # ys else y # insort_cmp cmp x ys)"

definition Array_sort :: "('a \<Rightarrow> 'a \<Rightarrow> int) \<Rightarrow> 'a list \<Rightarrow> 'a list" where
  "Array_sort cmp xs = foldr (insort_cmp cmp) xs []"

definition getBlocks :: "MemStorage \<Rightarrow> Block list" where
  "getBlocks s =
     Array_sort (\<lambda>a b. b_updatedAt b - b_updatedAt a) (Map_values (blocks s))"

definition getBlock :: "MemStorage \<Rightarrow> string \<Rightarrow> Block option" where
  "getBlock s i = Map_get (blocks s) i"

definition getBlockWithLinks :: "MemStorage \<Rightarrow> string \<Rightarrow> BlockWithLinks option" where
  "getBlockWithLinks s i =
     (case Map_get (blocks s) i of
        None \<Rightarrow> None
      | Some block \<Rightarrow>
          let allLinks = Map_values (links s);
              outgoingLinks = filter (\<lambda>link. l_fromBlockId link = i) allLinks;
              incomingLinks = filter (\<lambda>link. l_toBlockId link = i) allLinks;
              linkedTo' = filter_Boolean
                 (map (\<lambda>link. Map_get (blocks s) (l_toBlockId link)) outgoingLinks);
              linkedFrom' = filter_Boolean
                 (map (\<lambda>link. Map_get (blocks s) (l_fromBlockId link)) incomingLinks);
              comments' = filter (\<lambda>comment. c_blockId comment = i)
                 (Map_values (comments_tbl s))
          in Some (Block.extend block
                (BlockWithLinks.fields linkedTo' linkedFrom' comments'
                   (length linkedTo' + length linkedFrom') (length comments'))))"

definition createBlock ::
  "string \<Rightarrow> int \<Rightarrow> InsertBlock \<Rightarrow> MemStorage \<Rightarrow> Block \<times> MemStorage" where
  "createBlock uuid now insertBlock s =
     (let block = \<lparr>b_id = uuid,
                   b_title = ib_title insertBlock,
                   b_content = or_string (ib_content insertBlock) [],
                   b_contentType = or_string (ib_contentType insertBlock) ''text'',
                   b_position = Some (or_object (ib_position insertBlock) (0, 0)),
                   b_tags = Some (or_object (ib_tags insertBlock) []),
                   b_createdAt = now,
                   b_updatedAt = now,
                   b_authorId = ib_authorId insertBlock,
                   b_authorName = ib_authorName insertBlock\<rparr>
      in (block, s\<lparr>blocks := Map_set uuid block (blocks s)\<rparr>))"

text \<open>The object spread \<open>{...existingBlock, ...updates, updatedAt: new Date()}\<close>.\<close>

definition spread_updates :: "Block \<Rightarrow> PartialInsertBlock \<Rightarrow> int \<Rightarrow> Block" where
  "spread_updates existingBlock updates now =
     existingBlock
       \<lparr>b_title := (case u_title updates of None \<Rightarrow> b_title existingBlock | Some v \<Rightarrow> v),
        b_content := (case u_content updates of None \<Rightarrow> b_content existingBlock | Some v \<Rightarrow> v),
        b_contentType :=
          (case u_contentType updates of None \<Rightarrow> b_contentType existingBlock | Some v \<Rightarrow> v),
        b_position :=
          (case u_position updates of None \<Rightarrow> b_position existingBlock | Some v \<Rightarrow> v),
        b_tags := (case u_tags updates of None \<Rightarrow> b_tags existingBlock | Some v \<Rightarrow> v),
        b_authorId :=
          (case u_authorId updates of None \<Rightarrow> b_authorId existingBlock | Some v \<Rightarrow> v),
        b_authorName :=
          (case u_authorName updates of None \<Rightarrow> b_authorName existingBlock | Some v \<Rightarrow> v),
        b_updatedAt := now\<rparr>"

definition updateBlock ::
  "int \<Rightarrow> string \<Rightarrow> PartialInsertBlock \<Rightarrow> MemStorage \<Rightarrow> Block option \<times> MemStorage" where
  "updateBlock now i updates s =
     (case Map_get (blocks s) i of
        None \<Rightarrow> (None, s)
      | Some existingBlock \<Rightarrow>
          let updatedBlock = spread_updates existingBlock updates now
          in (Some updatedBlock, s\<lparr>blocks := Map_set i updatedBlock (blocks s)\<rparr>))"

text \<open>\<open>ids.forEach(k => m.delete(k))\<close>.\<close>

definition forEach_delete :: "'k list \<Rightarrow> ('k, 'v) Map \<Rightarrow> ('k, 'v) Map" where
  "forEach_delete ks m = fold Map_delete ks m"

definition deleteBlock :: "string \<Rightarrow> MemStorage \<Rightarrow> bool \<times> MemStorage" where
  "deleteBlock i s =
     (let deleted = Map_has (blocks s) i;
          s1 = s\<lparr>blocks := Map_delete i (blocks s)\<rparr>
      in if deleted then
           let linksToDelete = map fst
                 (filter (\<lambda>(linkId, link). l_fromBlockId link = i \<or> l_toBlockId link = i)
                    (Map_entries (links s1)));
               s2 = s1\<lparr>links := forEach_delete linksToDelete (links s1)\<rparr>;
               commentsToDelete = map fst
                 (filter (\<lambda>(commentId, comment). c_blockId comment = i)
                    (Map_entries (comments_tbl s2)));
               s3 = s2\<lparr>comments_tbl := forEach_delete commentsToDelete (comments_tbl s2)\<rparr>
           in (deleted, s3)
         else (deleted, s1))"

definition getLinks :: "MemStorage \<Rightarrow> Link list" where
  "getLinks s = Map_values (links s)"

definition getLinksForBlock :: "MemStorage \<Rightarrow> string \<Rightarrow> Link list" where
  "getLinksForBlock s blockId =
     filter (\<lambda>link. l_fromBlockId link = blockId \<or> l_toBlockId link = blockId)
       (Map_values (links s))"

definition createLink ::
  "string \<Rightarrow> int \<Rightarrow> InsertLink \<Rightarrow> MemStorage \<Rightarrow> Link \<times> MemStorage" where
  "createLink uuid now insertLink s =
     (let link = \<lparr>l_id = uuid,
                  l_fromBlockId = il_fromBlockId insertLink,
                  l_toBlockId = il_toBlockId insertLink,
                  l_createdAt = now\<rparr>
      in (link, s\<lparr>links := Map_set uuid link (links s)\<rparr>))"

definition deleteLink :: "string \<Rightarrow> MemStorage \<Rightarrow> bool \<times> MemStorage" where
  "deleteLink i s = (Map_has (links s) i, s\<lparr>links := Map_delete i (links s)\<rparr>)"

definition getLinksBetween :: "MemStorage \<Rightarrow> string \<Rightarrow> string \<Rightarrow> Link list" where
  "getLinksBetween s fromBlockId toBlockId =
     filter (\<lambda>link.
         (l_fromBlockId link = fromBlockId \<and> l_toBlockId link = toBlockId) \<or>
         (l_fromBlockId link = toBlockId \<and> l_toBlockId link = fromBlockId))
       (Map_values (links s))"

definition createComment ::
  "string \<Rightarrow> int \<Rightarrow> InsertComment \<Rightarrow> MemStorage \<Rightarrow> Comment \<times> MemStorage" where
  "createComment uuid now insertComment s =
     (let comment = \<lparr>c_id = uuid,
                     c_blockId = ic_blockId insertComment,
                     c_content = ic_content insertComment,
                     c_authorId = ic_authorId insertComment,
                     c_authorName = ic_authorName insertComment,
                     c_parentId =
                       (if truthy (ic_parentId insertComment) then ic_parentId insertComment
                        else None),
                     c_createdAt = now\<rparr>
      in (comment, s\<lparr>comments_tbl := Map_set uuid comment (comments_tbl s)\<rparr>))"

definition deleteComment :: "string \<Rightarrow> MemStorage \<Rightarrow> bool \<times> MemStorage" where
  "deleteComment i s =
     (Map_has (comments_tbl s) i, s\<lparr>comments_tbl := Map_delete i (comments_tbl s)\<rparr>)"

definition getGraphData :: "MemStorage \<Rightarrow> Block list \<times> Link list" where
  "getGraphData s = (Map_values (blocks s), Map_values (links s))"

text \<open>
  \<open>getCommentsForBlock\<close> builds its forest by mutation: \<open>commentMap\<close> holds one
  node object per comment id, and \<open>parent.replies.push(node)\<close> stores a reference
  to a node, not a copy. A node is therefore modelled as the comment with the list of
  the ids of its replies (the reference to a node is the comment id under which
  \<open>commentMap\<close> holds it); the returned array is the list of root references, read
  back through \<open>commentMap\<close>. The store holds every comment under its own id, so the
  comments of a block have distinct ids and an id stands for one node object.
\<close>

type_synonym commentMap = "(string, Comment \<times> string list) Map"

definition init_node :: "Comment \<Rightarrow> commentMap \<Rightarrow> commentMap" where
  "init_node comment commentMap = Map_set (c_id comment) (comment, []) commentMap"

definition attach_node ::
  "Comment \<Rightarrow> commentMap \<times> string list \<Rightarrow> commentMap \<times> string list" where
  "attach_node comment st =
     (let commentMap = fst st; rootComments = snd st
      in if truthy (c_parentId comment) then
           (case c_parentId comment of
              None \<Rightarrow> (commentMap, rootComments)
            | Some parentId \<Rightarrow>
                (case Map_get commentMap parentId of
                   None \<Rightarrow> (commentMap, rootComments)
                 | Some (parent, parent_replies) \<Rightarrow>
                     (Map_set parentId (parent, parent_replies @ [c_id comment]) commentMap,
                      rootComments)))
         else (commentMap, rootComments @ [c_id comment]))"

text \<open>
  Reading a node back: the comment with its replies read back in turn. The fuel bounds
  the depth; \<open>None\<close> means the fuel did not suffice.
\<close>

fun deref :: "nat \<Rightarrow> commentMap \<Rightarrow> string \<Rightarrow> CommentWithReplies option" where
  "deref 0 commentMap r = None"
| "deref (Suc n) commentMap r =
     (case Map_get commentMap r of
        None \<Rightarrow> None
      | Some (c, rs) \<Rightarrow>
          (case those (map (deref n commentMap) rs) of
             None \<Rightarrow> None
           | Some ts \<Rightarrow> Some (CommentWithReplies c ts)))"

definition blockComments_of :: "MemStorage \<Rightarrow> string \<Rightarrow> Comment list" where
  "blockComments_of s blockId =
     Array_sort (\<lambda>a b. c_createdAt a - c_createdAt b)
       (filter (\<lambda>comment. c_blockId comment = blockId) (Map_values (comments_tbl s)))"

definition getCommentsForBlock ::
  "MemStorage \<Rightarrow> string \<Rightarrow> CommentWithReplies list option" where
  "getCommentsForBlock s blockId =
     (let blockComments = blockComments_of s blockId;
          commentMap0 = fold init_node blockComments [];
          built = fold attach_node blockComments (commentMap0, []);
          commentMap = fst built;
          rootComments = snd built
      in those (map (deref (Suc (length blockComments)) commentMap) rootComments))"

text \<open>The number of comments in a returned tree, counting all depths.\<close>

fun tree_size :: "CommentWithReplies \<Rightarrow> nat" where
  "tree_size (CommentWithReplies c ts) = Suc (sum_list (map tree_size ts))"

definition forest_size :: "CommentWithReplies list \<Rightarrow> nat" where
  "forest_size ts = sum_list (map tree_size ts)"

section \<open>Sequences of store operations\<close>

datatype op =
    CreateBlock string InsertBlock
  | UpdateBlock string PartialInsertBlock
  | DeleteBlock string
  | CreateLink string InsertLink
  | DeleteLink string
  | CreateComment string InsertComment
  | DeleteComment string

fun apply_op :: "int \<Rightarrow> op \<Rightarrow> MemStorage \<Rightarrow> MemStorage" where
  "apply_op now (CreateBlock uuid insertBlock) s = snd (createBlock uuid now insertBlock s)"
| "apply_op now (UpdateBlock i updates) s = snd (updateBlock now i updates s)"
| "apply_op now (DeleteBlock i) s = snd (deleteBlock i s)"
| "apply_op now (CreateLink uuid insertLink) s = snd (createLink uuid now insertLink s)"
| "apply_op now (DeleteLink i) s = snd (deleteLink i s)"
| "apply_op now (CreateComment uuid insertComment) s =
     snd (createComment uuid now insertComment s)"
| "apply_op now (DeleteComment i) s = snd (deleteComment i s)"

text \<open>Each call is paired with the reading of the clock at the time it runs.\<close>

fun run :: "(int \<times> op) list \<Rightarrow> MemStorage \<Rightarrow> MemStorage" where
  "run [] s = s"
| "run ((now, c) # rest) s = run rest (apply_op now c s)"

definition updatedAt_ge_createdAt :: "MemStorage \<Rightarrow> bool" where
  "updatedAt_ge_createdAt s =
     list_all (\<lambda>b. b_createdAt b \<le> b_updatedAt b) (Map_values (blocks s))"

definition created_by :: "int \<Rightarrow> MemStorage \<Rightarrow> bool" where
  "created_by t s = list_all (\<lambda>b. b_createdAt b \<le> t) (Map_values (blocks s))"

section \<open>Links incident to a block\<close>

definition incident :: "string \<Rightarrow> Link \<Rightarrow> bool" where
  "incident B link = (l_fromBlockId link = B \<or> l_toBlockId link = B)"

definition opposite :: "string \<Rightarrow> Link \<Rightarrow> string" where
  "opposite B link = (if l_fromBlockId link = B then l_toBlockId link else l_fromBlockId link)"

definition self_link :: "string \<Rightarrow> Link \<Rightarrow> bool" where
  "self_link B link = (l_fromBlockId link = B \<and> l_toBlockId link = B)"

definition resolvable_incident :: "MemStorage \<Rightarrow> string \<Rightarrow> Link list" where
  "resolvable_incident s B =
     filter (\<lambda>link. incident B link \<and> Map_has (blocks s) (opposite B link))
       (Map_values (links s))"

section \<open>The fan-out channel and the link route (server/routes.ts)\<close>

text \<open>
  A connection is a handle; what a handle answers at the time of a broadcast is a
  parameter: its \<open>readyState\<close>.
\<close>

datatype readyState = CONNECTING | OPEN | CLOSING | CLOSED

type_synonym ws = nat

record WebSocket =
  readyState :: readyState

datatype completion = Returns | Throws

text \<open>
  \<open>WebSocket.send\<close> belongs to the library \<open>ws\<close>, not to the repository. Called with
  a string and no callback, it throws only while the socket is still \<open>CONNECTING\<close>; on
  an \<open>OPEN\<close> socket it hands the data to the sender and returns; on a \<open>CLOSING\<close> or
  \<open>CLOSED\<close> socket it returns without sending.
\<close>

definition ws_send :: "WebSocket \<Rightarrow> string \<Rightarrow> completion" where
  "ws_send socket data = (if readyState socket = CONNECTING then Throws else Returns)"

text \<open>\<open>Set<WebSocket>\<close>, in insertion order.\<close>

definition Set_add :: "'a \<Rightarrow> 'a list \<Rightarrow> 'a list" where
  "Set_add x xs = (if x \<in> set xs then xs else xs @ [x])"

definition Set_delete :: "'a \<Rightarrow> 'a list \<Rightarrow> 'a list" where
  "Set_delete x xs = removeAll x xs"

definition on_connection :: "ws \<Rightarrow> ws list \<Rightarrow> ws list" where
  "on_connection w clients = Set_add w clients"

definition on_close :: "ws \<Rightarrow> ws list \<Rightarrow> ws list" where
  "on_close w clients = Set_delete w clients"

definition on_error :: "ws \<Rightarrow> ws list \<Rightarrow> ws list" where
  "on_error w clients = Set_delete w clients"

datatype payload = BlockData Block | LinkData Link | CommentData Comment | IdData string

record message =
  m_type :: string
  m_data :: payload

text \<open>
  What a broadcast does, in order: each call of \<open>JSON.stringify\<close>, with its argument,
  and each \<open>send\<close> that went through, with the connection and the string sent.
\<close>

datatype effect = is_Stringified: Stringified message | Sent ws string

text \<open>
  \<open>clients.forEach(client => { if (client.readyState === WebSocket.OPEN)
  client.send(messageStr) })\<close>: the sends made, and how the loop ended. No \<open>try\<close>
  surrounds \<open>send\<close>: an exception thrown by it leaves the callback and \<open>forEach\<close>.
\<close>

fun forEach_send ::
  "(ws \<Rightarrow> WebSocket) \<Rightarrow> string \<Rightarrow> ws list \<Rightarrow> effect list \<times> completion" where
  "forEach_send sock messageStr [] = ([], Returns)"
| "forEach_send sock messageStr (client # rest) =
     (if readyState (sock client) = OPEN then
        (case ws_send (sock client) messageStr of
           Throws \<Rightarrow> ([], Throws)
         | Returns \<Rightarrow>
             (case forEach_send sock messageStr rest of
                (sent, r) \<Rightarrow> (Sent client messageStr # sent, r)))
      else forEach_send sock messageStr rest)"

text \<open>
  \<open>const messageStr = JSON.stringify(message)\<close> stands before the loop: one call, whose
  result every send of the loop uses.
\<close>

definition broadcastToClients ::
  "(message \<Rightarrow> string) \<Rightarrow> (ws \<Rightarrow> WebSocket) \<Rightarrow> ws list \<Rightarrow> message \<Rightarrow>
     effect list \<times> completion" where
  "broadcastToClients JSON_stringify sock clients msg =
     (let messageStr = JSON_stringify msg
      in case forEach_send sock messageStr clients of
           (sent, r) \<Rightarrow> (Stringified msg # sent, r))"

datatype 'a response = Json 'a | Status_json nat string

record server =
  storage :: MemStorage
  clients :: "ws list"

text \<open>
  \<open>POST /api/links\<close>. The body is given as the result of \<open>insertLinkSchema.parse\<close>
  (\<open>None\<close> when it throws). Any exception inside the handler reaches its \<open>catch\<close>.
\<close>

definition post_api_links ::
  "(message \<Rightarrow> string) \<Rightarrow> (ws \<Rightarrow> WebSocket) \<Rightarrow> string \<Rightarrow> int \<Rightarrow> InsertLink option \<Rightarrow>
     server \<Rightarrow> Link response \<times> server \<times> effect list" where
  "post_api_links JSON_stringify sock uuid now body srv =
     (case body of
        None \<Rightarrow> (Status_json 400 ''Invalid link data'', srv, [])
      | Some validatedLink \<Rightarrow>
          let existingLinks = getLinksBetween (storage srv)
                (il_fromBlockId validatedLink) (il_toBlockId validatedLink)
          in if length existingLinks > 0 then
               (Status_json 400 ''Link already exists'', srv, [])
             else
               (case createLink uuid now validatedLink (storage srv) of
                  (link, storage') \<Rightarrow>
                    let srv' = srv\<lparr>storage := storage'\<rparr> in
                    (case broadcastToClients JSON_stringify sock (clients srv')
                            \<lparr>m_type = ''link_created'', m_data = LinkData link\<rparr> of
                       (sent, Returns) \<Rightarrow> (Json link, srv', sent)
                     | (sent, Throws) \<Rightarrow>
                         (Status_json 400 ''Invalid link data'', srv', sent))))"

section \<open>Notions for stating what getCommentsForBlock returns\<close>

text \<open>
  The parent a comment effectively names: \<open>if (comment.parentId)\<close> takes \<open>null\<close> and the
  empty string for "no parent".
\<close>

definition parent_ref :: "Comment \<Rightarrow> string option" where
  "parent_ref c = (if truthy (c_parentId c) then c_parentId c else None)"

text \<open>The ids of the comments of \<open>cs\<close> that name \<open>p\<close> as their parent, in order.\<close>

definition kids :: "Comment list \<Rightarrow> string \<Rightarrow> string list" where
  "kids cs p = map c_id (filter (\<lambda>x. parent_ref x = Some p) cs)"

text \<open>The comment that \<open>commentMap\<close> holds under an id (the last one set wins).\<close>

definition lookup :: "Comment list \<Rightarrow> string \<Rightarrow> Comment option" where
  "lookup cs p = map_of (map (\<lambda>c. (c_id c, c)) (rev cs)) p"

text \<open>All comments of a returned tree, at every depth.\<close>

fun flatten :: "CommentWithReplies \<Rightarrow> Comment list" where
  "flatten (CommentWithReplies c ts) = c # concat (map flatten ts)"

text \<open>
  The comments that end up in the returned forest: those without parent, and those
  whose parent is an earlier comment that ends up in it itself.
\<close>

fun placed :: "string list \<Rightarrow> Comment list \<Rightarrow> Comment list" where
  "placed seen [] = []"
| "placed seen (c # cs) =
     (case parent_ref c of
        None \<Rightarrow> c # placed (c_id c # seen) cs
      | Some p \<Rightarrow> if p \<in> set seen then c # placed (c_id c # seen) cs else placed seen cs)"

text \<open>
  Ids are unique, and no comment names itself or a later comment as its parent: what
  holds of the comments of a block when every id is fresh at creation.
\<close>

fun parents_first :: "Comment list \<Rightarrow> bool" where
  "parents_first [] = True"
| "parents_first (c # cs) =
     (parent_ref c \<noteq> Some (c_id c) \<and>
      list_all (\<lambda>x. c_id x \<noteq> c_id c \<and> parent_ref c \<noteq> Some (c_id x)) cs \<and>
      parents_first cs)"

text \<open>Every parent named is the id of a comment of the list.\<close>

definition parents_resolve :: "Comment list \<Rightarrow> bool" where
  "parents_resolve cs =
     list_all (\<lambda>c. case parent_ref c of None \<Rightarrow> True | Some p \<Rightarrow> p \<in> set (map c_id cs)) cs"

text \<open>A tree with the leaf \<open>c\<close> appended to the replies of the node \<open>c\<close> names as parent.\<close>

fun ins :: "string option \<Rightarrow> Comment \<Rightarrow> CommentWithReplies \<Rightarrow> CommentWithReplies" where
  "ins po c (CommentWithReplies x ts) =
     CommentWithReplies x
       (map (ins po c) ts @ (if po = Some (c_id x) then [CommentWithReplies c []] else []))"

text \<open>
  Every node of the tree has as replies exactly the comments of \<open>cs\<close> that name it as
  parent, in the order of \<open>cs\<close>.
\<close>

fun threaded :: "Comment list \<Rightarrow> CommentWithReplies \<Rightarrow> bool" where
  "threaded cs (CommentWithReplies c ts) =
     (map node_comment ts = filter (\<lambda>x. parent_ref x = Some (c_id c)) cs \<and>
      list_all (threaded cs) ts)"

text \<open>The two loops of \<open>getCommentsForBlock\<close>: \<open>commentMap\<close> and \<open>rootComments\<close>.\<close>

definition build :: "Comment list \<Rightarrow> commentMap \<times> string list" where
  "build cs = fold attach_node cs (fold init_node cs [], [])"

section \<open>Sample data\<close>

definition blk :: "string \<Rightarrow> int \<Rightarrow> int \<Rightarrow> Block" where
  "blk i c u = \<lparr>b_id = i, b_title = ''note'', b_content = [], b_contentType = ''text'',
     b_position = Some (0, 0), b_tags = Some [], b_createdAt = c, b_updatedAt = u,
     b_authorId = ''u1'', b_authorName = ''Ann''\<rparr>"

definition lnk :: "string \<Rightarrow> string \<Rightarrow> string \<Rightarrow> Link" where
  "lnk i f t = \<lparr>l_id = i, l_fromBlockId = f, l_toBlockId = t, l_createdAt = 0\<rparr>"

definition cmt :: "string \<Rightarrow> string \<Rightarrow> string option \<Rightarrow> int \<Rightarrow> Comment" where
  "cmt i b p t = \<lparr>c_id = i, c_blockId = b, c_content = ''hi'', c_authorId = ''u1'',
     c_authorName = ''Ann'', c_parentId = p, c_createdAt = t\<rparr>"

definition store_ab :: MemStorage where
  "store_ab = \<lparr>blocks = [(''a'', blk ''a'' 0 0), (''b'', blk ''b'' 0 0)],
     links = [(''l1'', lnk ''l1'' ''a'' ''b''), (''l2'', lnk ''l2'' ''b'' ''b'')],
     comments_tbl = [(''c1'', cmt ''c1'' ''a'' None 0), (''c2'', cmt ''c2'' ''b'' None 0)]\<rparr>"

definition stringify_demo :: "message \<Rightarrow> string" where
  "stringify_demo msg = m_type msg"

definition sock_demo :: "ws \<Rightarrow> WebSocket" where
  "sock_demo w =
     \<lparr>readyState = (if w = 0 then CLOSED else if w = 2 then CONNECTING else OPEN)\<rparr>"

definition sock_fine :: "ws \<Rightarrow> WebSocket" where
  "sock_fine w = \<lparr>readyState = (if w = 0 then CLOSED else OPEN)\<rparr>"


definition msg_demo :: message where
  "msg_demo = \<lparr>m_type = ''block_deleted'', m_data = IdData ''a''\<rparr>"

definition store_self :: MemStorage where
  "store_self = \<lparr>blocks = [(''a'', blk ''a'' 0 0)],
     links = [(''l1'', lnk ''l1'' ''a'' ''a'')], comments_tbl = []\<rparr>"

definition u_demo :: PartialInsertBlock where
  "u_demo = \<lparr>u_title = Some ''renamed'', u_content = None, u_contentType = None,
     u_position = Some None, u_tags = None, u_authorId = None, u_authorName = None\<rparr>"

definition ib_demo :: InsertBlock where
  "ib_demo = \<lparr>ib_title = ''note'', ib_content = None, ib_contentType = None,
     ib_position = None, ib_tags = None, ib_authorId = ''u1'', ib_authorName = ''Ann''\<rparr>"

definition ic_demo :: "string \<Rightarrow> string option \<Rightarrow> InsertComment" where
  "ic_demo b p = \<lparr>ic_blockId = b, ic_content = ''hi'', ic_authorId = ''u1'',
     ic_authorName = ''Ann'', ic_parentId = p\<rparr>"

definition orphan_ops :: "(int \<times> op) list" where
  "orphan_ops = [(1, CreateBlock ''a'' ib_demo),
                 (2, CreateComment ''c1'' (ic_demo ''a'' None)),
                 (3, CreateComment ''c2'' (ic_demo ''a'' (Some ''c1''))),
                 (4, DeleteComment ''c1'')]"

definition backwards_ops :: "(int \<times> op) list" where
  "backwards_ops = [(10, CreateBlock ''a'' ib_demo), (5, UpdateBlock ''a'' u_demo)]"

lemmas sample_defs = blk_def lnk_def cmt_def store_ab_def

section \<open>Cascade on deleteBlock\<close>

lemma set_forEach_delete:
  "set (forEach_delete ks m) = {e \<in> set m. fst e \<notin> set ks}"
  unfolding forEach_delete_def
  by (induction ks arbitrary: m) (auto simp: Map_delete_def)

lemma deleteBlock_links:
  assumes "deleteBlock i s = (True, s')" and "e \<in> set (links s')"
  shows "l_fromBlockId (snd e) \<noteq> i \<and> l_toBlockId (snd e) \<noteq> i"
  using assms
  by (force simp: deleteBlock_def Let_def set_forEach_delete Map_entries_def
      split: if_splits)

lemma deleteBlock_comments:
  assumes "deleteBlock i s = (True, s')" and "e \<in> set (comments_tbl s')"
  shows "c_blockId (snd e) \<noteq> i"
  using assms
  by (force simp: deleteBlock_def Let_def set_forEach_delete Map_entries_def
      split: if_splits)

text \<open>
  C1. Whenever \<open>deleteBlock(B)\<close> answers \<open>true\<close>, the link table of the resulting
  store holds no link whose source or destination is \<open>B\<close>, and its comment table
  holds no comment whose owning block is \<open>B\<close>.
\<close>

theorem deleteBlock_cascade:
  assumes "deleteBlock B s = (True, s')"
  shows "(\<forall>link \<in> set (Map_values (links s')).
            l_fromBlockId link \<noteq> B \<and> l_toBlockId link \<noteq> B) \<and>
         (\<forall>comment \<in> set (Map_values (comments_tbl s')). c_blockId comment \<noteq> B)"
  using deleteBlock_links [OF assms] deleteBlock_comments [OF assms]
  by (auto simp: Map_values_def)

theorem deleteBlock_cascade_witness:
  "deleteBlock ''a'' store_ab =
     (True, \<lparr>blocks = [(''b'', blk ''b'' 0 0)], links = [(''l2'', lnk ''l2'' ''b'' ''b'')],
             comments_tbl = [(''c2'', cmt ''c2'' ''b'' None 0)]\<rparr>) \<and>
   list_all (\<lambda>link. l_fromBlockId link \<noteq> ''a'' \<and> l_toBlockId link \<noteq> ''a'')
     [lnk ''l2'' ''b'' ''b''] \<and>
   list_all (\<lambda>comment. c_blockId comment \<noteq> ''a'') [cmt ''c2'' ''b'' None 0]"
proof -
  have h: "deleteBlock ''a'' store_ab =
     (True, \<lparr>blocks = [(''b'', blk ''b'' 0 0)], links = [(''l2'', lnk ''l2'' ''b'' ''b'')],
             comments_tbl = [(''c2'', cmt ''c2'' ''b'' None 0)]\<rparr>)"
    by (simp add: deleteBlock_def Let_def Map_has_def Map_get_def Map_delete_def
        Map_entries_def forEach_delete_def sample_defs)
  show ?thesis using h deleteBlock_cascade [OF h] by (simp add: Map_values_def)
qed

section \<open>Duplicate links are refused by the route\<close>

lemma getLinksBetween_nonempty:
  assumes "link \<in> set (Map_values (links s))"
    and "(l_fromBlockId link = A \<and> l_toBlockId link = B) \<or>
         (l_fromBlockId link = B \<and> l_toBlockId link = A)"
  shows "getLinksBetween s A B \<noteq> []" "getLinksBetween s B A \<noteq> []"
  using assms by (auto simp: getLinksBetween_def filter_empty_conv)

text \<open>
  C2. If the link table holds a link between \<open>A\<close> and \<open>B\<close> in either direction, a
  request to create a link from \<open>A\<close> to \<open>B\<close>, and one from \<open>B\<close> to \<open>A\<close>, is answered
  with the client error "Link already exists"; the server state is the one before the
  request (so \<open>createLink\<close>, which always writes to the link table, did not run) and
  nothing is broadcast.
\<close>

theorem duplicate_link_rejected:
  assumes "link \<in> set (Map_values (links (storage srv)))"
    and "(l_fromBlockId link = A \<and> l_toBlockId link = B) \<or>
         (l_fromBlockId link = B \<and> l_toBlockId link = A)"
  shows "post_api_links JSON_stringify sock uuid now
            (Some \<lparr>il_fromBlockId = A, il_toBlockId = B\<rparr>) srv =
           (Status_json 400 ''Link already exists'', srv, []) \<and>
         post_api_links JSON_stringify sock uuid now
            (Some \<lparr>il_fromBlockId = B, il_toBlockId = A\<rparr>) srv =
           (Status_json 400 ''Link already exists'', srv, [])"
  using getLinksBetween_nonempty [OF assms]
  by (simp add: post_api_links_def Let_def)

theorem duplicate_link_rejected_witness:
  "post_api_links stringify_demo sock_fine ''l3'' 7
      (Some \<lparr>il_fromBlockId = ''b'', il_toBlockId = ''a''\<rparr>) \<lparr>storage = store_ab, clients = [1]\<rparr> =
     (Status_json 400 ''Link already exists'', \<lparr>storage = store_ab, clients = [1]\<rparr>, []) \<and>
   post_api_links stringify_demo sock_fine ''l3'' 7
      (Some \<lparr>il_fromBlockId = ''a'', il_toBlockId = ''b''\<rparr>) \<lparr>storage = store_ab, clients = [1]\<rparr> =
     (Status_json 400 ''Link already exists'', \<lparr>storage = store_ab, clients = [1]\<rparr>, [])"
proof -
  have h1: "lnk ''l1'' ''a'' ''b'' \<in> set (Map_values (links (storage \<lparr>storage = store_ab, clients = [1]\<rparr>)))"
    by (simp add: Map_values_def store_ab_def)
  have h2: "(l_fromBlockId (lnk ''l1'' ''a'' ''b'') = ''b'' \<and> l_toBlockId (lnk ''l1'' ''a'' ''b'') = ''a'') \<or>
         (l_fromBlockId (lnk ''l1'' ''a'' ''b'') = ''a'' \<and> l_toBlockId (lnk ''l1'' ''a'' ''b'') = ''b'')"
    by (simp add: lnk_def)
  show ?thesis using duplicate_link_rejected [OF h1 h2] by simp
qed

section \<open>getBlocks\<close>

lemma mset_insort_cmp: "mset (insort_cmp cmp x xs) = add_mset x (mset xs)"
  by (induction xs) auto

lemma mset_Array_sort: "mset (Array_sort cmp xs) = mset xs"
  unfolding Array_sort_def by (induction xs) (auto simp: mset_insort_cmp)

lemma set_insort_cmp: "set (insort_cmp cmp x xs) = insert x (set xs)"
  by (induction xs) auto

lemma set_Array_sort: "set (Array_sort cmp xs) = set xs"
  using mset_Array_sort [of cmp xs] by (metis set_mset_mset)

lemma length_Array_sort: "length (Array_sort cmp xs) = length xs"
  using mset_Array_sort [of cmp xs] by (metis size_mset)

lemma sorted_insort_key_cmp:
  "sorted_wrt (\<lambda>a b. f a \<le> (f b :: int)) xs \<Longrightarrow>
   sorted_wrt (\<lambda>a b. f a \<le> f b) (insort_cmp (\<lambda>a b. f a - f b) x xs)"
  by (induction xs) (auto simp: set_insort_cmp)

lemma sorted_Array_sort_key:
  "sorted_wrt (\<lambda>a b. f a \<le> (f b :: int)) (Array_sort (\<lambda>a b. f a - f b) xs)"
  unfolding Array_sort_def by (induction xs) (auto simp: sorted_insort_key_cmp)

text \<open>
  C10. \<open>getBlocks\<close> returns every block of the store, each as often as the store holds
  it, in an order in which \<open>updatedAt\<close> never increases from one block to the next.
\<close>

theorem getBlocks_sorted_desc:
  "mset (getBlocks s) = mset (Map_values (blocks s)) \<and>
   sorted_wrt (\<lambda>a b. b_updatedAt a \<ge> b_updatedAt b) (getBlocks s)"
proof -
  have "sorted_wrt (\<lambda>a b. - b_updatedAt a \<le> - b_updatedAt b)
          (Array_sort (\<lambda>a b. (- b_updatedAt a) - (- b_updatedAt b)) (Map_values (blocks s)))"
    by (rule sorted_Array_sort_key)
  then show ?thesis by (simp add: getBlocks_def mset_Array_sort)
qed

theorem getBlocks_sorted_desc_witness:
  "getBlocks \<lparr>blocks = [(''a'', blk ''a'' 1 1), (''b'', blk ''b'' 2 5), (''c'', blk ''c'' 3 3)],
      links = [], comments_tbl = []\<rparr> = [blk ''b'' 2 5, blk ''c'' 3 3, blk ''a'' 1 1]"
  using getBlocks_sorted_desc [of "\<lparr>blocks = [(''a'', blk ''a'' 1 1), (''b'', blk ''b'' 2 5), (''c'', blk ''c'' 3 3)],
      links = [], comments_tbl = []\<rparr>"]
  by (simp add: getBlocks_def Array_sort_def Map_values_def blk_def)

section \<open>Broadcast\<close>

lemma ws_send_OPEN: "readyState socket = OPEN \<Longrightarrow> ws_send socket data = Returns"
  by (simp add: ws_send_def)


lemma forEach_send_char:
  "forEach_send sock str cs =
     (map (\<lambda>w. Sent w str) (filter (\<lambda>w. readyState (sock w) = OPEN) cs), Returns)"
  by (induction cs) (simp_all add: ws_send_OPEN)

lemma broadcastToClients_char:
  "broadcastToClients JSON_stringify sock cs msg =
     (Stringified msg #
        map (\<lambda>w. Sent w (JSON_stringify msg)) (filter (\<lambda>w. readyState (sock w) = OPEN) cs),
      Returns)"
  by (simp add: broadcastToClients_def Let_def forEach_send_char)

text \<open>
  C6. For every event and every registry, a broadcast calls \<open>JSON.stringify\<close> exactly
  once, on the event, and then sends the resulting string exactly once to each
  connection of the registry whose \<open>readyState\<close> is \<open>OPEN\<close>, in registry order, and
  returns. A connection in any other state gets nothing, is neither queued nor retried,
  and does not hold up the others.
\<close>

theorem broadcast_ready_all:
  "broadcastToClients JSON_stringify sock registry msg =
     (Stringified msg #
        map (\<lambda>w. Sent w (JSON_stringify msg))
          (filter (\<lambda>w. readyState (sock w) = OPEN) registry),
      Returns) \<and>
   filter is_Stringified (fst (broadcastToClients JSON_stringify sock registry msg)) =
     [Stringified msg]"
proof -
  have "filter is_Stringified
          (map (\<lambda>w. Sent w (JSON_stringify msg))
             (filter (\<lambda>w. readyState (sock w) = OPEN) registry)) = []"
    by (induction registry) simp_all
  then show ?thesis by (simp add: broadcastToClients_char)
qed

theorem broadcast_ready_all_witness:
  "broadcastToClients stringify_demo sock_demo [0, 1, 2, 3] msg_demo =
     ([Stringified msg_demo, Sent 1 ''block_deleted'', Sent 3 ''block_deleted''], Returns)"
proof -
  have c: "map (\<lambda>w. Sent w (stringify_demo msg_demo))
             (filter (\<lambda>w. readyState (sock_demo w) = OPEN) [0, 1, 2, 3]) =
           [Sent 1 ''block_deleted'', Sent 3 ''block_deleted'']"
    by (simp add: sock_demo_def stringify_demo_def msg_demo_def)
  show ?thesis
    using broadcast_ready_all [of stringify_demo sock_demo "[0, 1, 2, 3]" msg_demo]
    unfolding c by simp
qed



text \<open>The registry: a connection joins on \<open>connection\<close> and leaves on \<open>close\<close> or \<open>error\<close>.\<close>

lemma on_connection_member: "w \<in> set (on_connection w registry)"
  by (simp add: on_connection_def Set_add_def)

lemma on_close_not_member: "w \<notin> set (on_close w registry)" "w \<notin> set (on_error w registry)"
  by (simp_all add: on_close_def on_error_def Set_delete_def)

lemma registry_distinct:
  assumes "distinct registry"
  shows "distinct (on_connection w registry)" "distinct (on_close w registry)"
    "distinct (on_error w registry)"
  using assms
  by (simp_all add: on_connection_def on_close_def on_error_def Set_add_def Set_delete_def
      distinct_removeAll)

text \<open>
  The other branch of the route: with no link between the two blocks, the link is
  created and broadcast.
\<close>

lemma post_api_links_creates:
  assumes "getLinksBetween (storage srv) (il_fromBlockId v) (il_toBlockId v) = []"
  shows "post_api_links JSON_stringify sock uuid now (Some v) srv =
     (Json (fst (createLink uuid now v (storage srv))),
      srv\<lparr>storage := snd (createLink uuid now v (storage srv))\<rparr>,
      Stringified \<lparr>m_type = ''link_created'',
                   m_data = LinkData (fst (createLink uuid now v (storage srv)))\<rparr> #
      map (\<lambda>w. Sent w (JSON_stringify
             \<lparr>m_type = ''link_created'',
              m_data = LinkData (fst (createLink uuid now v (storage srv)))\<rparr>))
        (filter (\<lambda>w. readyState (sock w) = OPEN) (clients srv)))"
  using assms
  by (simp add: post_api_links_def Let_def broadcastToClients_char split: prod.splits)

section \<open>getBlockWithLinks\<close>

lemma length_filter_Boolean:
  "length (filter_Boolean (map f xs)) = length (filter (\<lambda>x. f x \<noteq> None) xs)"
  by (induction xs) (auto split: option.splits)

lemma count_links:
  assumes "Map_has bs B"
  shows "length (filter (\<lambda>l. Map_get bs (l_toBlockId l) \<noteq> None) (filter (\<lambda>l. l_fromBlockId l = B) ls)) +
         length (filter (\<lambda>l. Map_get bs (l_fromBlockId l) \<noteq> None) (filter (\<lambda>l. l_toBlockId l = B) ls)) =
         length (filter (\<lambda>l. incident B l \<and> Map_has bs (opposite B l)) ls) +
         length (filter (self_link B) ls)"
  using assms
  by (induction ls) (auto simp: incident_def opposite_def self_link_def Map_has_def)

text \<open>
  C5, as the code has it. For a block \<open>B\<close> of the store, \<open>linkCount\<close> is the number of
  links incident to \<open>B\<close> whose opposite endpoint resolves to a block of the store, plus
  the number of links from \<open>B\<close> to \<open>B\<close>: a self-link is counted twice.
\<close>

theorem linkCount_self_links_twice:
  assumes "Map_get (blocks s) B = Some b"
  shows "map_option linkCount (getBlockWithLinks s B) =
     Some (length (resolvable_incident s B) +
           length (filter (self_link B) (Map_values (links s))))"
proof -
  have "Map_has (blocks s) B" using assms by (simp add: Map_has_def)
  from count_links [OF this] show ?thesis using assms
    by (simp add: getBlockWithLinks_def Let_def resolvable_incident_def
        length_filter_Boolean Block.defs BlockWithLinks.defs)
qed

theorem linkCount_self_links_twice_witness:
  "Map_get (blocks store_ab) ''b'' = Some (blk ''b'' 0 0) \<and>
   map_option linkCount (getBlockWithLinks store_ab ''b'') = Some 3 \<and>
   length (resolvable_incident store_ab ''b'') = 2 \<and>
   length (filter (self_link ''b'') (Map_values (links store_ab))) = 1"
proof -
  have h: "Map_get (blocks store_ab) ''b'' = Some (blk ''b'' 0 0)"
    by (simp add: Map_get_def store_ab_def)
  have c: "length (resolvable_incident store_ab ''b'') = 2"
    "length (filter (self_link ''b'') (Map_values (links store_ab))) = 1"
    by (simp_all add: resolvable_incident_def incident_def opposite_def self_link_def
        Map_has_def Map_get_def Map_values_def sample_defs)
  show ?thesis using h linkCount_self_links_twice [OF h] unfolding c by simp
qed

text \<open>
  C5 as stated fails: with the single link \<open>a \<rightarrow> a\<close>, one link is incident to \<open>a\<close> and
  resolves, and \<open>linkCount\<close> is 2.
\<close>

theorem linkCount_incident_counterexample:
  "map_option linkCount (getBlockWithLinks store_self ''a'') = Some 2 \<and>
   length (resolvable_incident store_self ''a'') = 1"
  by (simp add: getBlockWithLinks_def Let_def resolvable_incident_def incident_def
      opposite_def Map_has_def Map_get_def Map_values_def store_self_def lnk_def
      Block.defs BlockWithLinks.defs)

lemma filter_Boolean_append: "filter_Boolean (xs @ ys) = filter_Boolean xs @ filter_Boolean ys"
  by (induction xs rule: filter_Boolean.induct) auto

text \<open>
  C9. For a block \<open>B\<close> of the store, a link from \<open>B\<close> to \<open>B\<close> puts \<open>B\<close> in both
  \<open>linkedTo\<close> and \<open>linkedFrom\<close>: compared with the same store without that link, each
  list is one longer and \<open>linkCount\<close> is greater by 2.
\<close>

theorem self_link_in_both_lists:
  assumes "Map_get (blocks s) B = Some b"
    and "links s = pre @ (k, link) # post"
    and "l_fromBlockId link = B" and "l_toBlockId link = B"
  shows "\<exists>r r0. getBlockWithLinks s B = Some r \<and>
           getBlockWithLinks (s\<lparr>links := pre @ post\<rparr>) B = Some r0 \<and>
           b \<in> set (linkedTo r) \<and> b \<in> set (linkedFrom r) \<and>
           length (linkedTo r) = length (linkedTo r0) + 1 \<and>
           length (linkedFrom r) = length (linkedFrom r0) + 1 \<and>
           linkCount r = linkCount r0 + 2"
  using assms
  by (simp add: getBlockWithLinks_def Let_def Map_values_def filter_Boolean_append
      Block.defs BlockWithLinks.defs)

theorem self_link_in_both_lists_witness:
  "map_option linkCount (getBlockWithLinks store_self ''a'') = Some 2 \<and>
   map_option linkCount (getBlockWithLinks (store_self\<lparr>links := []\<rparr>) ''a'') = Some 0"
proof -
  have h1: "Map_get (blocks store_self) ''a'' = Some (blk ''a'' 0 0)"
    by (simp add: Map_get_def store_self_def)
  have h2: "links store_self = [] @ (''l1'', lnk ''l1'' ''a'' ''a'') # []"
    by (simp add: store_self_def)
  have h3: "l_fromBlockId (lnk ''l1'' ''a'' ''a'') = ''a''"
    and h4: "l_toBlockId (lnk ''l1'' ''a'' ''a'') = ''a''"
    by (simp_all add: lnk_def)
  have z: "map_option linkCount (getBlockWithLinks (store_self\<lparr>links := []\<rparr>) ''a'') = Some 0"
    by (simp add: getBlockWithLinks_def Let_def Map_get_def Map_values_def store_self_def
        Block.defs BlockWithLinks.defs)
  from self_link_in_both_lists [OF h1 h2 h3 h4]
  obtain r r0 where r: "getBlockWithLinks store_self ''a'' = Some r"
    and r0: "getBlockWithLinks (store_self\<lparr>links := [] @ []\<rparr>) ''a'' = Some r0"
    and n: "linkCount r = linkCount r0 + 2" by blast
  from r0 z have "linkCount r0 = 0" by simp
  with r n z show ?thesis by simp
qed

section \<open>updateBlock\<close>

lemma Map_get_Map_set:
  "Map_get (Map_set k v m) k' = (if k' = k then Some v else Map_get m k')"
  by (induction m) (auto simp: Map_get_def)

lemma keys_Map_set_present:
  "Map_get m k = Some old \<Longrightarrow> map fst (Map_set k v m) = map fst m"
  by (induction m) (auto simp: Map_get_def split: if_splits)

text \<open>
  C7. When the id is present, \<open>updateBlock\<close> returns the stored block with each field
  present in the payload overwritten by the payload's value, \<open>updatedAt\<close> set to the
  clock reading, and every other field, \<open>id\<close> and \<open>createdAt\<close> among them, as before;
  the returned block is stored under the id, every other entry of the block table, the
  order of its keys, the link table and the comment table are as before. When the id is
  absent, the result is "not found" and the store is the one before.
\<close>

theorem updateBlock_frame:
  "(\<forall>old. Map_get (blocks s) i = Some old \<longrightarrow>
      (\<exists>new s'. updateBlock now i u s = (Some new, s') \<and>
         b_title new = (case u_title u of None \<Rightarrow> b_title old | Some v \<Rightarrow> v) \<and>
         b_content new = (case u_content u of None \<Rightarrow> b_content old | Some v \<Rightarrow> v) \<and>
         b_contentType new =
           (case u_contentType u of None \<Rightarrow> b_contentType old | Some v \<Rightarrow> v) \<and>
         b_position new = (case u_position u of None \<Rightarrow> b_position old | Some v \<Rightarrow> v) \<and>
         b_tags new = (case u_tags u of None \<Rightarrow> b_tags old | Some v \<Rightarrow> v) \<and>
         b_authorId new = (case u_authorId u of None \<Rightarrow> b_authorId old | Some v \<Rightarrow> v) \<and>
         b_authorName new =
           (case u_authorName u of None \<Rightarrow> b_authorName old | Some v \<Rightarrow> v) \<and>
         b_updatedAt new = now \<and>
         b_id new = b_id old \<and>
         b_createdAt new = b_createdAt old \<and>
         Map_get (blocks s') i = Some new \<and>
         (\<forall>j. j \<noteq> i \<longrightarrow> Map_get (blocks s') j = Map_get (blocks s) j) \<and>
         map fst (blocks s') = map fst (blocks s) \<and>
         links s' = links s \<and> comments_tbl s' = comments_tbl s)) \<and>
   (Map_get (blocks s) i = None \<longrightarrow> updateBlock now i u s = (None, s))"
  by (simp add: updateBlock_def Let_def spread_updates_def Map_get_Map_set
      keys_Map_set_present)

theorem updateBlock_frame_witness:
  "map_option (\<lambda>b. (b_title b, b_content b, b_position b, b_createdAt b, b_updatedAt b))
     (fst (updateBlock 9 ''a'' u_demo store_ab)) = Some (''renamed'', [], None, 0, 9) \<and>
   updateBlock 9 ''zz'' u_demo store_ab = (None, store_ab)"
proof -
  have p: "Map_get (blocks store_ab) ''a'' = Some (blk ''a'' 0 0)"
    and q: "Map_get (blocks store_ab) ''zz'' = None"
    by (simp_all add: Map_get_def store_ab_def)
  from updateBlock_frame [of store_ab "''a''" 9 u_demo] p
  obtain new s' where r: "updateBlock 9 ''a'' u_demo store_ab = (Some new, s')"
    and f: "b_title new = (case u_title u_demo of None \<Rightarrow> b_title (blk ''a'' 0 0) | Some v \<Rightarrow> v)"
      "b_content new = (case u_content u_demo of None \<Rightarrow> b_content (blk ''a'' 0 0) | Some v \<Rightarrow> v)"
      "b_position new = (case u_position u_demo of None \<Rightarrow> b_position (blk ''a'' 0 0) | Some v \<Rightarrow> v)"
      "b_createdAt new = b_createdAt (blk ''a'' 0 0)" "b_updatedAt new = 9"
    by blast
  from updateBlock_frame [of store_ab "''zz''" 9 u_demo] q
  have a: "updateBlock 9 ''zz'' u_demo store_ab = (None, store_ab)" by blast
  show ?thesis using r f a by (simp add: u_demo_def blk_def)
qed

section \<open>updatedAt is never before createdAt\<close>

lemma set_Map_set_subset: "set (Map_set k v m) \<subseteq> insert (k, v) (set m)"
  by (induction m) (auto split: if_splits)

lemma in_Map_values_Map_set:
  "x \<in> set (Map_values (Map_set k v m)) \<Longrightarrow> x = v \<or> x \<in> set (Map_values m)"
  using set_Map_set_subset [of k v m] by (auto simp: Map_values_def)

lemma in_Map_values_Map_delete:
  "x \<in> set (Map_values (Map_delete k m)) \<Longrightarrow> x \<in> set (Map_values m)"
  by (auto simp: Map_values_def Map_delete_def)

lemma Map_get_in_values: "Map_get m k = Some v \<Longrightarrow> v \<in> set (Map_values m)"
  by (auto simp: Map_get_def Map_values_def dest: map_of_SomeD intro: rev_image_eqI)

lemma blocks_deleteBlock: "blocks (snd (deleteBlock i s)) = Map_delete i (blocks s)"
  by (simp add: deleteBlock_def Let_def)

lemma created_by_mono: "created_by t s \<Longrightarrow> t \<le> t' \<Longrightarrow> created_by t' s"
  by (auto simp: created_by_def list_all_iff)

lemma apply_op_inv:
  assumes "updatedAt_ge_createdAt s" and "created_by now s"
  shows "updatedAt_ge_createdAt (apply_op now c s) \<and> created_by now (apply_op now c s)"
proof (cases c)
  case (CreateBlock uuid ib)
  then show ?thesis
    using assms
    by (auto simp: updatedAt_ge_createdAt_def created_by_def list_all_iff createBlock_def Let_def
        dest!: in_Map_values_Map_set)
next
  case (UpdateBlock i u)
  show ?thesis
  proof (cases "Map_get (blocks s) i")
    case None
    then show ?thesis using assms UpdateBlock by (simp add: updateBlock_def)
  next
    case (Some old)
    then have "old \<in> set (Map_values (blocks s))" by (rule Map_get_in_values)
    then have "b_createdAt old \<le> now" using assms(2) by (simp add: created_by_def list_all_iff)
    then show ?thesis
      using assms Some UpdateBlock
      by (auto simp: updatedAt_ge_createdAt_def created_by_def list_all_iff updateBlock_def
          Let_def spread_updates_def dest!: in_Map_values_Map_set)
  qed
next
  case (DeleteBlock i)
  then show ?thesis
    using assms
    by (auto simp: updatedAt_ge_createdAt_def created_by_def list_all_iff blocks_deleteBlock
        dest!: in_Map_values_Map_delete)
next
  case (CreateLink uuid il)
  then show ?thesis using assms
    by (simp add: updatedAt_ge_createdAt_def created_by_def createLink_def Let_def)
next
  case (DeleteLink i)
  then show ?thesis using assms
    by (simp add: updatedAt_ge_createdAt_def created_by_def deleteLink_def)
next
  case (CreateComment uuid ic)
  then show ?thesis using assms
    by (simp add: updatedAt_ge_createdAt_def created_by_def createComment_def Let_def)
next
  case (DeleteComment i)
  then show ?thesis using assms
    by (simp add: updatedAt_ge_createdAt_def created_by_def deleteComment_def)
qed

text \<open>
  C8, as the code has it. \<open>new Date()\<close> reads the wall clock, and \<open>updateBlock\<close> does
  not compare the reading with \<open>createdAt\<close>. When the readings of successive store
  operations never decrease, and are no earlier than the creation of the blocks already
  stored, every block satisfies \<open>createdAt \<le> updatedAt\<close> and every store operation
  keeps it so: starting from a store where it holds (the empty store is one), it holds
  after any sequence of store operations. \<open>createBlock\<close> assigns both timestamps the
  same reading; \<open>updateBlock\<close> assigns \<open>updatedAt\<close> the current reading and leaves
  \<open>createdAt\<close>.
\<close>

theorem updatedAt_ge_createdAt_preserved:
  assumes "updatedAt_ge_createdAt s" and "created_by t0 s" and "sorted (t0 # map fst ops)"
  shows "updatedAt_ge_createdAt (run ops s)"
  using assms
proof (induction ops arbitrary: s t0)
  case Nil
  then show ?case by simp
next
  case (Cons a ops)
  obtain now c where a: "a = (now, c)" by (cases a)
  from Cons.prems(3) a have le: "t0 \<le> now" and srt: "sorted (now # map fst ops)" by auto
  from created_by_mono [OF Cons.prems(2) le] have cb: "created_by now s" .
  from apply_op_inv [OF Cons.prems(1) cb, of c]
  have "updatedAt_ge_createdAt (apply_op now c s)" "created_by now (apply_op now c s)" by auto
  from Cons.IH [OF this srt] show ?case by (simp add: a)
qed

theorem updatedAt_ge_createdAt_preserved_witness:
  "map (\<lambda>b. (b_createdAt b, b_updatedAt b))
     (Map_values (blocks (run [(1, CreateBlock ''a'' ib_demo), (5, UpdateBlock ''a'' u_demo),
                               (6, CreateBlock ''b'' ib_demo)] new_MemStorage))) = [(1, 5), (6, 6)] \<and>
   updatedAt_ge_createdAt
     (run [(1, CreateBlock ''a'' ib_demo), (5, UpdateBlock ''a'' u_demo),
           (6, CreateBlock ''b'' ib_demo)] new_MemStorage)"
proof -
  have h1: "updatedAt_ge_createdAt new_MemStorage" and h2: "created_by 0 new_MemStorage"
    by (simp_all add: updatedAt_ge_createdAt_def created_by_def new_MemStorage_def Map_values_def)
  have h3: "sorted ((0::int) # map fst [(1, CreateBlock ''a'' ib_demo), (5, UpdateBlock ''a'' u_demo),
                               (6, CreateBlock ''b'' ib_demo)])" by simp
  have c: "map (\<lambda>b. (b_createdAt b, b_updatedAt b))
     (Map_values (blocks (run [(1, CreateBlock ''a'' ib_demo), (5, UpdateBlock ''a'' u_demo),
                               (6, CreateBlock ''b'' ib_demo)] new_MemStorage))) = [(1, 5), (6, 6)]"
    by (simp add: new_MemStorage_def createBlock_def updateBlock_def Let_def Map_get_def
        Map_values_def spread_updates_def)
  show ?thesis using c updatedAt_ge_createdAt_preserved [OF h1 h2 h3] by simp
qed

text \<open>
  C8 as stated fails: a block created when the clock reads 10 and updated when it reads
  5 (the wall clock was set back in between) has \<open>updatedAt\<close> before \<open>createdAt\<close>.
\<close>

theorem updatedAt_before_createdAt_counterexample:
  "map (\<lambda>b. (b_createdAt b, b_updatedAt b))
     (Map_values (blocks (run backwards_ops new_MemStorage))) = [(10, 5)] \<and>
   \<not> updatedAt_ge_createdAt (run backwards_ops new_MemStorage)"
  by (simp add: backwards_ops_def new_MemStorage_def createBlock_def updateBlock_def Let_def
      Map_get_def Map_values_def spread_updates_def updatedAt_ge_createdAt_def)

section \<open>getCommentsForBlock\<close>

lemma Map_get_init_node:
  "Map_get (init_node a m) p = (if p = c_id a then Some (a, []) else Map_get m p)"
  by (simp add: init_node_def Map_get_Map_set)

lemma lookup_Nil: "lookup [] p = None"
  by (simp add: lookup_def)

lemma lookup_Cons:
  "lookup (a # cs) p =
     (case lookup cs p of Some c \<Rightarrow> Some c | None \<Rightarrow> if p = c_id a then Some a else None)"
  by (auto simp: lookup_def map_add_def split: option.splits)

lemma lookup_snoc: "lookup (cs @ [c]) p = (if p = c_id c then Some c else lookup cs p)"
  by (simp add: lookup_def)

lemma Map_get_fold_init:
  "Map_get (fold init_node cs m) p =
     (case lookup cs p of Some c \<Rightarrow> Some (c, []) | None \<Rightarrow> Map_get m p)"
proof (induction cs arbitrary: m)
  case Nil
  then show ?case by (simp add: lookup_Nil)
next
  case (Cons a cs)
  show ?case
    by (simp add: Cons.IH Map_get_init_node lookup_Cons split: option.splits)
qed

lemma attach_node_cases:
  "attach_node c (m, rs) =
     (case parent_ref c of
        None \<Rightarrow> (m, rs @ [c_id c])
      | Some q \<Rightarrow>
          (case Map_get m q of
             None \<Rightarrow> (m, rs)
           | Some (pc, prs) \<Rightarrow> (Map_set q (pc, prs @ [c_id c]) m, rs)))"
  by (auto simp: attach_node_def parent_ref_def truthy_def Let_def split: option.splits)

lemma fold_attach_roots:
  "snd (fold attach_node xs (m, rs)) =
     rs @ map c_id (filter (\<lambda>c. parent_ref c = None) xs)"
  by (induction xs arbitrary: m rs) (auto simp: attach_node_cases split: option.splits)

lemma fold_attach_get:
  "Map_get (fst (fold attach_node xs (m, rs))) p =
     map_option (\<lambda>(c, reps). (c, reps @ kids xs p)) (Map_get m p)"
proof (induction xs arbitrary: m rs p)
  case Nil
  then show ?case by (simp add: kids_def option.map_ident case_prod_unfold)
next
  case (Cons a xs)
  show ?case
  proof (cases "parent_ref a")
    case None
    then show ?thesis by (simp add: attach_node_cases Cons.IH kids_def)
  next
    case (Some q)
    show ?thesis
    proof (cases "Map_get m q")
      case None
      then show ?thesis using Some
        by (cases "p = q") (auto simp: attach_node_cases Cons.IH kids_def)
    next
      case (Some node)
      obtain pc prs where node: "node = (pc, prs)" by (cases node)
      show ?thesis using Some \<open>parent_ref a = Some q\<close> node
        by (cases "p = q")
          (auto simp: attach_node_cases Cons.IH kids_def Map_get_Map_set split: option.splits)
    qed
  qed
qed

lemma build_get:
  "Map_get (fst (build cs)) p = map_option (\<lambda>c. (c, kids cs p)) (lookup cs p)"
  by (simp add: build_def fold_attach_get Map_get_fold_init Map_get_def [of "[]"]
      split: option.splits)

lemma build_roots:
  "snd (build cs) = map c_id (filter (\<lambda>c. parent_ref c = None) cs)"
  by (simp add: build_def fold_attach_roots)

lemma those_eq_Some: "those xs = Some ys \<longleftrightarrow> xs = map Some ys"
  by (induction xs arbitrary: ys) (auto split: option.splits)

lemma map_eq_map_Some: "map f ks = map Some ts \<longleftrightarrow> list_all2 (\<lambda>k t. f k = Some t) ks ts"
  by (induction ks arbitrary: ts) (auto simp: list_all2_Cons1)

lemma those_map_Some: "those (map Some ys) = Some ys"
  by (simp add: those_eq_Some)

lemma deref_Suc_Some:
  "deref (Suc n) m r = Some t \<longleftrightarrow>
     (\<exists>x ks ts. Map_get m r = Some (x, ks) \<and>
        list_all2 (\<lambda>k t'. deref n m k = Some t') ks ts \<and> t = CommentWithReplies x ts)"
proof
  assume "deref (Suc n) m r = Some t"
  then show "\<exists>x ks ts. Map_get m r = Some (x, ks) \<and>
        list_all2 (\<lambda>k t'. deref n m k = Some t') ks ts \<and> t = CommentWithReplies x ts"
    by (auto simp: those_eq_Some map_eq_map_Some split: option.splits)
next
  assume "\<exists>x ks ts. Map_get m r = Some (x, ks) \<and>
        list_all2 (\<lambda>k t'. deref n m k = Some t') ks ts \<and> t = CommentWithReplies x ts"
  then obtain x ks ts where g: "Map_get m r = Some (x, ks)"
    and l: "map (deref n m) ks = map Some ts" and t: "t = CommentWithReplies x ts"
    unfolding map_eq_map_Some by blast
  show "deref (Suc n) m r = Some t"
    by (simp add: g l t those_map_Some)
qed

lemma deref_mono: "deref n m r = Some t \<Longrightarrow> deref (Suc n) m r = Some t"
proof (induction n arbitrary: r t)
  case 0
  then show ?case by simp
next
  case (Suc n)
  from Suc.prems obtain x ks ts where g: "Map_get m r = Some (x, ks)"
    and l: "list_all2 (\<lambda>k t'. deref n m k = Some t') ks ts" and t: "t = CommentWithReplies x ts"
    unfolding deref_Suc_Some by blast
  from l have "list_all2 (\<lambda>k t'. deref (Suc n) m k = Some t') ks ts"
    by (rule list_all2_mono) (rule Suc.IH)
  with g t show ?case unfolding deref_Suc_Some [of "Suc n"] by blast
qed

lemma deref_ins:
  assumes i: "\<And>q. q \<noteq> c_id c \<Longrightarrow>
      Map_get m' q =
        map_option (\<lambda>(x, ks). (x, ks @ (if po = Some q then [c_id c] else []))) (Map_get m q)"
    and ii: "Map_get m' (c_id c) = Some (c, [])"
    and iii: "Map_get m (c_id c) = None"
    and iv: "\<And>q x ks. Map_get m q = Some (x, ks) \<Longrightarrow> c_id x = q"
  shows "deref n m r = Some t \<Longrightarrow> deref (Suc n) m' r = Some (ins po c t)"
proof (induction n arbitrary: r t)
  case 0
  then show ?case by simp
next
  case (Suc n)
  from Suc.prems obtain x ks ts where g: "Map_get m r = Some (x, ks)"
    and l: "list_all2 (\<lambda>k t'. deref n m k = Some t') ks ts" and t: "t = CommentWithReplies x ts"
    unfolding deref_Suc_Some by blast
  from g iii have ne: "r \<noteq> c_id c" by auto
  from iv [OF g] have xr: "c_id x = r" .
  from i [OF ne] g
  have g': "Map_get m' r = Some (x, ks @ (if po = Some r then [c_id c] else []))" by simp
  from l have l1: "list_all2 (\<lambda>k t'. deref (Suc n) m' k = Some t') ks (map (ins po c) ts)"
    by (induction rule: list_all2_induct) (auto intro: Suc.IH simp del: deref.simps)
  have l2: "list_all2 (\<lambda>k t'. deref (Suc n) m' k = Some t')
              (if po = Some r then [c_id c] else [])
              (if po = Some r then [CommentWithReplies c []] else [])"
    using ii by simp
  from l1 l2 have "list_all2 (\<lambda>k t'. deref (Suc n) m' k = Some t')
      (ks @ (if po = Some r then [c_id c] else []))
      (map (ins po c) ts @ (if po = Some r then [CommentWithReplies c []] else []))"
    by (rule list_all2_appendI)
  with g' show ?case unfolding deref_Suc_Some [of "Suc n"] t using xr by auto
qed

lemma node_comment_ins: "node_comment (ins po c t) = node_comment t"
  by (cases t) simp

lemma flatten_ins:
  "mset (flatten (ins po c t)) =
     mset (flatten t) + mset (replicate (length (filter (\<lambda>x. po = Some (c_id x)) (flatten t))) c)"
proof (induction t rule: flatten.induct)
  case (1 x ts)
  have "mset (concat (map flatten (map (ins po c) ts))) =
        mset (concat (map flatten ts)) +
        mset (replicate (length (filter (\<lambda>x. po = Some (c_id x)) (concat (map flatten ts)))) c)"
    using 1 by (induction ts) (auto simp: replicate_add)
  then show ?case by (auto simp: replicate_add)
qed

lemma forest_ins:
  "mset (concat (map flatten (map (ins po c) ts))) =
     mset (concat (map flatten ts)) +
     mset (replicate (length (filter (\<lambda>x. po = Some (c_id x)) (concat (map flatten ts)))) c)"
  by (induction ts) (auto simp: flatten_ins replicate_add)

lemma parents_first_snoc:
  "parents_first (cs @ [c]) \<longleftrightarrow>
     parents_first cs \<and>
     list_all (\<lambda>x. c_id x \<noteq> c_id c \<and> parent_ref x \<noteq> Some (c_id c)) cs \<and>
     parent_ref c \<noteq> Some (c_id c)"
  by (induction cs) (auto simp: list_all_iff)

lemma parents_first_distinct: "parents_first cs \<Longrightarrow> distinct (map c_id cs)"
  by (induction cs) (auto simp: list_all_iff)

lemma kids_snoc:
  "kids (cs @ [c]) q = kids cs q @ (if parent_ref c = Some q then [c_id c] else [])"
  by (simp add: kids_def)

lemma kids_none: "list_all (\<lambda>x. parent_ref x \<noteq> Some q) cs \<Longrightarrow> kids cs q = []"
  by (induction cs) (auto simp: kids_def)

lemma placed_snoc:
  "placed seen (cs @ [c]) =
     placed seen cs @
       (case parent_ref c of
          None \<Rightarrow> [c]
        | Some p \<Rightarrow> if p \<in> set seen \<union> set (map c_id (placed seen cs)) then [c] else [])"
  by (induction cs arbitrary: seen) (auto split: option.splits)

lemma set_placed: "set (placed seen cs) \<subseteq> set cs"
  by (induction cs arbitrary: seen) (auto split: option.splits)

lemma distinct_placed: "distinct (map c_id cs) \<Longrightarrow> distinct (map c_id (placed seen cs))"
proof (induction cs arbitrary: seen)
  case Nil
  then show ?case by simp
next
  case (Cons a cs)
  then show ?case using set_placed [of _ cs]
    by (auto split: option.splits)
qed

lemma lookup_Some: "lookup cs q = Some x \<Longrightarrow> c_id x = q \<and> x \<in> set cs"
  by (auto simp: lookup_def dest!: map_of_SomeD)

lemma lookup_None: "lookup cs q = None \<longleftrightarrow> q \<notin> c_id ` set cs"
  by (auto simp: lookup_def map_of_eq_None_iff image_image)

lemma count_distinct_key:
  "distinct (map f xs) \<Longrightarrow> length (filter (\<lambda>x. p = f x) xs) = (if p \<in> f ` set xs then 1 else 0)"
  by (induction xs) auto

lemma length_filter_mset_eq:
  "mset xs = mset ys \<Longrightarrow> length (filter P xs) = length (filter P ys)"
  by (metis mset_filter size_mset)

lemma build_forest:
  assumes "parents_first cs"
  shows "\<exists>ts. list_all2 (\<lambda>r t. deref (length cs) (fst (build cs)) r = Some t) (snd (build cs)) ts \<and>
           map node_comment ts = filter (\<lambda>c. parent_ref c = None) cs \<and>
           mset (concat (map flatten ts)) = mset (placed [] cs)"
  using assms
proof (induction cs rule: rev_induct)
  case Nil
  then show ?case by (simp add: build_roots)
next
  case (snoc c cs)
  let ?m = "fst (build cs)" and ?m' = "fst (build (cs @ [c]))" and ?po = "parent_ref c"
  from snoc.prems have pf: "parents_first cs"
    and fresh: "list_all (\<lambda>x. c_id x \<noteq> c_id c \<and> parent_ref x \<noteq> Some (c_id c)) cs"
    and noself: "parent_ref c \<noteq> Some (c_id c)"
    by (simp_all add: parents_first_snoc)
  from snoc.IH [OF pf] obtain ts
    where l: "list_all2 (\<lambda>r t. deref (length cs) ?m r = Some t) (snd (build cs)) ts"
      and roots: "map node_comment ts = filter (\<lambda>c. parent_ref c = None) cs"
      and ms: "mset (concat (map flatten ts)) = mset (placed [] cs)"
    by blast
  have i: "Map_get ?m' q =
        map_option (\<lambda>(x, ks). (x, ks @ (if ?po = Some q then [c_id c] else []))) (Map_get ?m q)"
    if "q \<noteq> c_id c" for q
    using that by (simp add: build_get lookup_snoc kids_snoc option.map_comp comp_def)
  have "kids cs (c_id c) = []"
    using fresh by (intro kids_none) (simp add: list_all_iff)
  then have ii: "Map_get ?m' (c_id c) = Some (c, [])"
    using noself by (simp add: build_get lookup_snoc kids_snoc)
  have "c_id c \<notin> c_id ` set cs" using fresh by (auto simp: list_all_iff)
  then have iii: "Map_get ?m (c_id c) = None"
    by (simp add: build_get lookup_None)
  have iv: "c_id x = q" if "Map_get ?m q = Some (x, ks)" for q x ks
    using that by (auto simp: build_get dest: lookup_Some)
  have step: "deref (Suc (length cs)) ?m' r = Some (ins ?po c t)"
    if "deref (length cs) ?m r = Some t" for r t
    using i ii iii iv that by (rule deref_ins)
  from l have l1: "list_all2 (\<lambda>r t. deref (Suc (length cs)) ?m' r = Some t)
       (snd (build cs)) (map (ins ?po c) ts)"
    by (induction rule: list_all2_induct) (auto intro: step simp del: deref.simps)
  have new: "deref (Suc (length cs)) ?m' (c_id c) = Some (CommentWithReplies c [])"
    using ii by simp
  let ?ts' = "map (ins ?po c) ts @ (if ?po = None then [CommentWithReplies c []] else [])"
  have l2: "list_all2 (\<lambda>r t. deref (Suc (length cs)) ?m' r = Some t)
       (if ?po = None then [c_id c] else [])
       (if ?po = None then [CommentWithReplies c []] else [])"
    using new by (simp del: deref.simps)
  have A: "list_all2 (\<lambda>r t. deref (length (cs @ [c])) ?m' r = Some t) (snd (build (cs @ [c]))) ?ts'"
    using list_all2_appendI [OF l1 l2]
    by (cases ?po) (simp_all add: build_roots del: deref.simps)
  have B: "map node_comment ?ts' = filter (\<lambda>c. parent_ref c = None) (cs @ [c])"
    using roots by (simp add: node_comment_ins comp_def)
  have cnt: "length (filter (\<lambda>x. ?po = Some (c_id x)) (concat (map flatten ts))) =
             length (filter (\<lambda>x. ?po = Some (c_id x)) (placed [] cs))"
    using ms by (rule length_filter_mset_eq)
  have dp: "distinct (map c_id (placed [] cs))"
    using pf by (intro distinct_placed parents_first_distinct)
  have C: "mset (concat (map flatten ?ts')) = mset (placed [] (cs @ [c]))"
  proof (cases ?po)
    case None
    then show ?thesis using forest_ins [of ?po c ts] ms by (simp add: placed_snoc)
  next
    case (Some p)
    have "length (filter (\<lambda>x. Some p = Some (c_id x)) (placed [] cs)) =
          (if p \<in> c_id ` set (placed [] cs) then 1 else 0)"
      using count_distinct_key [OF dp, of p] by simp
    then show ?thesis using Some cnt forest_ins [of ?po c ts] ms
      by (simp add: placed_snoc)
  qed
  from A B C show ?case by blast
qed

lemma lookup_distinct:
  "distinct (map c_id cs) \<Longrightarrow> y \<in> set cs \<Longrightarrow> lookup cs (c_id y) = Some y"
  unfolding lookup_def
  by (rule map_of_is_SomeI) (auto simp: rev_map [symmetric] comp_def)

lemma deref_threaded:
  assumes g: "\<And>q. Map_get m q = map_option (\<lambda>c. (c, kids cs q)) (lookup cs q)"
    and d: "distinct (map c_id cs)"
  shows "deref n m r = Some t \<Longrightarrow> threaded cs t \<and> lookup cs r = Some (node_comment t)"
proof (induction n arbitrary: r t)
  case 0
  then show ?case by simp
next
  case (Suc n)
  from Suc.prems obtain x ks ts where gr: "Map_get m r = Some (x, ks)"
    and l: "list_all2 (\<lambda>k t'. deref n m k = Some t') ks ts" and t: "t = CommentWithReplies x ts"
    unfolding deref_Suc_Some by blast
  from gr g [of r] have lx: "lookup cs r = Some x" and ks: "ks = kids cs r" by auto
  from lookup_Some [OF lx] have xr: "c_id x = r" by simp
  from l have l': "list_all2 (\<lambda>k t'. threaded cs t' \<and> lookup cs k = Some (node_comment t')) ks ts"
    by (rule list_all2_mono) (rule Suc.IH)
  then have th: "list_all (threaded cs) ts"
    by (induction rule: list_all2_induct) auto
  let ?ys = "filter (\<lambda>y. parent_ref y = Some r) cs"
  from l' have "list_all2 (\<lambda>k t'. lookup cs k = Some (node_comment t')) (map c_id ?ys) ts"
    unfolding ks kids_def by (rule list_all2_mono) simp
  then have L: "list_all2 (\<lambda>y t'. lookup cs (c_id y) = Some (node_comment t')) ?ys ts"
    by (simp add: list_all2_map1)
  have look: "lookup cs (c_id y) = Some y" if "y \<in> set ?ys" for y
    using that d by (auto intro: lookup_distinct)
  have "list_all2 (\<lambda>y t'. y = node_comment t') ?ys ts"
  proof (rule list_all2_all_nthI)
    show "length ?ys = length ts" using L by (rule list_all2_lengthD)
  next
    fix i assume i: "i < length ?ys"
    then have "?ys ! i \<in> set ?ys" by (rule nth_mem)
    then have "lookup cs (c_id (?ys ! i)) = Some (?ys ! i)" by (rule look)
    moreover from L i have "lookup cs (c_id (?ys ! i)) = Some (node_comment (ts ! i))"
      by (rule list_all2_nthD)
    ultimately show "?ys ! i = node_comment (ts ! i)" by simp
  qed
  then have "map node_comment ts = ?ys"
    by (induction rule: list_all2_induct) auto
  with th lx show ?case by (simp add: t xr)
qed

lemma tree_size_flatten: "tree_size t = length (flatten t)"
proof (induction t rule: flatten.induct)
  case (1 c ts)
  then have eq: "sum_list (map tree_size ts) = sum_list (map (\<lambda>x. length (flatten x)) ts)"
    by (induction ts) auto
  show ?case unfolding tree_size.simps eq by (simp add: length_concat comp_def)
qed

lemma forest_size_flatten: "forest_size ts = length (concat (map flatten ts))"
  by (induction ts) (simp_all add: forest_size_def tree_size_flatten)

lemma placed_all:
  "parents_first cs \<Longrightarrow> parents_resolve cs \<Longrightarrow> placed [] cs = cs"
proof (induction cs rule: rev_induct)
  case Nil
  then show ?case by simp
next
  case (snoc c cs)
  from snoc.prems(1) have pf: "parents_first cs"
    and fresh: "list_all (\<lambda>x. c_id x \<noteq> c_id c \<and> parent_ref x \<noteq> Some (c_id c)) cs"
    and noself: "parent_ref c \<noteq> Some (c_id c)"
    by (simp_all add: parents_first_snoc)
  have pr: "parents_resolve cs"
    using snoc.prems(2) fresh
    by (fastforce simp: parents_resolve_def list_all_iff split: option.splits)
  have c: "case parent_ref c of None \<Rightarrow> True | Some p \<Rightarrow> p \<in> c_id ` set cs"
    using snoc.prems(2) noself
    by (auto simp: parents_resolve_def split: option.splits)
  from snoc.IH [OF pf pr] c show ?case
    by (auto simp: placed_snoc split: option.splits)
qed

lemma getCommentsForBlock_build:
  "getCommentsForBlock s b =
     those (map (deref (Suc (length (blockComments_of s b)))
                   (fst (build (blockComments_of s b))))
              (snd (build (blockComments_of s b))))"
  by (simp add: getCommentsForBlock_def build_def Let_def)

text \<open>
  What the loop does build. When the comments of the block have unique ids and name
  only earlier comments as parents, \<open>getCommentsForBlock\<close> returns; its roots are the
  comments of the block without parent, in creation order; every node has as replies
  exactly the comments of the block that name it, in creation order; and the comments
  of the forest are, each once, those of \<open>placed\<close>. When moreover every parent named
  is a comment of the block, these are all the comments of the block.
\<close>

theorem getCommentsForBlock_forest:
  assumes "parents_first (blockComments_of s b)"
  shows "\<exists>forest. getCommentsForBlock s b = Some forest \<and>
           map node_comment forest =
             filter (\<lambda>c. parent_ref c = None) (blockComments_of s b) \<and>
           list_all (threaded (blockComments_of s b)) forest \<and>
           mset (concat (map flatten forest)) = mset (placed [] (blockComments_of s b)) \<and>
           (parents_resolve (blockComments_of s b) \<longrightarrow>
              mset (concat (map flatten forest)) = mset (blockComments_of s b) \<and>
              forest_size forest = length (blockComments_of s b))"
proof -
  let ?cs = "blockComments_of s b"
  from build_forest [OF assms] obtain ts
    where l: "list_all2 (\<lambda>r t. deref (length ?cs) (fst (build ?cs)) r = Some t) (snd (build ?cs)) ts"
      and roots: "map node_comment ts = filter (\<lambda>c. parent_ref c = None) ?cs"
      and ms: "mset (concat (map flatten ts)) = mset (placed [] ?cs)"
    by blast
  from l have l': "list_all2 (\<lambda>r t. deref (Suc (length ?cs)) (fst (build ?cs)) r = Some t)
                     (snd (build ?cs)) ts"
    by (rule list_all2_mono) (rule deref_mono)
  then have res: "getCommentsForBlock s b = Some ts"
    unfolding getCommentsForBlock_build those_eq_Some map_eq_map_Some .
  have d: "distinct (map c_id ?cs)" using assms by (rule parents_first_distinct)
  from l' have th: "list_all (threaded ?cs) ts"
  proof (induction rule: list_all2_induct)
    case Nil
    then show ?case by simp
  next
    case (Cons r rs t ts)
    from deref_threaded [OF build_get d Cons.hyps(1)] Cons.IH show ?case by simp
  qed
  have "mset (concat (map flatten ts)) = mset ?cs \<and> forest_size ts = length ?cs"
    if "parents_resolve ?cs"
  proof -
    from placed_all [OF assms that] ms have m: "mset (concat (map flatten ts)) = mset ?cs" by simp
    then have "length (concat (map flatten ts)) = length ?cs" by (metis size_mset)
    with m show ?thesis by (simp add: forest_size_flatten)
  qed
  with res roots th ms show ?thesis by blast
qed

lemma orphan_store: "run orphan_ops new_MemStorage =
   \<lparr>blocks = [(''a'', blk ''a'' 1 1)], links = [],
    comments_tbl = [(''c2'', cmt ''c2'' ''a'' (Some ''c1'') 3)]\<rparr>"
  by (simp add: orphan_ops_def new_MemStorage_def createBlock_def createComment_def
      deleteComment_def Let_def Map_delete_def ib_demo_def ic_demo_def blk_def cmt_def
      or_string_def or_object_def truthy_def)

text \<open>
  Scenario 2 of the specification: a root with its reply.
\<close>

lemma getCommentsForBlock_reply:
  "getCommentsForBlock (run (butlast orphan_ops) new_MemStorage) ''a'' =
     Some [CommentWithReplies (cmt ''c1'' ''a'' None 2)
             [CommentWithReplies (cmt ''c2'' ''a'' (Some ''c1'') 3) []]]"
  by (simp add: orphan_ops_def new_MemStorage_def createBlock_def createComment_def
      deleteComment_def Let_def Map_delete_def ib_demo_def ic_demo_def blk_def cmt_def
      or_string_def or_object_def truthy_def getCommentsForBlock_def blockComments_of_def Array_sort_def Map_values_def
      init_node_def attach_node_def Map_get_def)

text \<open>
  C4 at a store the server reaches: a block, a comment \<open>c1\<close> on it, a reply \<open>c2\<close> to
  \<open>c1\<close>, then \<open>deleteComment(c1)\<close>. The block still has the comment \<open>c2\<close>, and
  \<open>getBlockWithLinks\<close> counts it, but the loop of \<open>getCommentsForBlock\<close> has no branch
  for a \<open>parentId\<close> that names no comment of the block: \<open>c2\<close> is neither pushed to a
  \<open>replies\<close> list nor to the roots, and the returned forest is empty.
\<close>

theorem getCommentsForBlock_drops_orphan:
  "map c_id (blockComments_of (run orphan_ops new_MemStorage) ''a'') = [''c2''] \<and>
   getCommentsForBlock (run orphan_ops new_MemStorage) ''a'' = Some [] \<and>
   map_option commentCount (getBlockWithLinks (run orphan_ops new_MemStorage) ''a'') = Some 1"
  unfolding orphan_store
  by (simp add: getCommentsForBlock_def blockComments_of_def Array_sort_def Map_values_def
      init_node_def attach_node_def Let_def truthy_def Map_get_def cmt_def
      getBlockWithLinks_def Block.defs BlockWithLinks.defs)

end
